theory Spec2Isabelle
  imports Main "HOL-Library.Sublist"
begin

section \<open>Screen session handling of the node manager daemon (screen.py)\<close>

text \<open>
  The module \<open>node_manager_daemon_fkie/screen.py\<close> names GNU screen sessions after ROS
  node names, parses the output of \<open>screen -ls\<close>, derives log, configuration and pid file
  names, writes the screen configuration and removes log files. The file is Python 2
  code (\<open>from __future__ import print_function\<close>; the pipe output is a byte \<open>str\<close>), so
  a string is a list of bytes: \<^typ>\<open>string\<close>.
\<close>

subsection \<open>Python string primitives\<close>

text \<open>
  \<open>str.replace(old, new)\<close>: the occurrences of \<open>old\<close> are found from left to right and do
  not overlap; an empty \<open>old\<close> matches before every character and at the end.
\<close>

fun replace_str :: "string \<Rightarrow> string \<Rightarrow> string \<Rightarrow> string" where
  "replace_str old new [] = (if old = [] then new else [])"
| "replace_str old new (c # cs) =
     (if old = [] then new @ c # replace_str old new cs
      else if prefix old (c # cs)
           then new @ replace_str old new (drop (length old) (c # cs))
           else c # replace_str old new cs)"

text \<open>\<open>str.strip()\<close> removes the ASCII whitespace bytes at both ends.\<close>

definition is_space :: "char \<Rightarrow> bool" where
  "is_space c = (c = CHR '' '' \<or> c = CHR 0x09 \<or> c = CHR 0x0A \<or> c = CHR 0x0B
                 \<or> c = CHR 0x0C \<or> c = CHR 0x0D)"

definition strip :: "string \<Rightarrow> string" where
  "strip s = rev (dropWhile is_space (rev (dropWhile is_space s)))"

text \<open>\<open>str.strip(chars)\<close> removes the characters of \<open>chars\<close> at both ends.\<close>

definition strip_chars :: "string \<Rightarrow> string \<Rightarrow> string" where
  "strip_chars chars s =
     rev (dropWhile (\<lambda>c. c \<in> set chars) (rev (dropWhile (\<lambda>c. c \<in> set chars) s)))"

text \<open>
  \<open>s.split(sep, 1)\<close> for a one-character separator: one element when \<open>sep\<close> does not occur,
  else the text before the first occurrence and the text after it.
\<close>

definition split_once :: "char \<Rightarrow> string \<Rightarrow> string list" where
  "split_once sep s =
     (case dropWhile (\<lambda>c. c \<noteq> sep) s of
        [] \<Rightarrow> [s]
      | _ # rest \<Rightarrow> [takeWhile (\<lambda>c. c \<noteq> sep) s, rest])"

text \<open>\<open>s.split(sep)\<close> for a one-character separator: the list is never empty.\<close>

fun split_all :: "char \<Rightarrow> string \<Rightarrow> string list" where
  "split_all sep [] = [[]]"
| "split_all sep (c # cs) =
     (if c = sep then [] # split_all sep cs
      else (case split_all sep cs of
              [] \<Rightarrow> [[c]]
            | w # ws \<Rightarrow> (c # w) # ws))"

text \<open>
  \<open>str.splitlines()\<close> of a byte string: a line ends at \<open>\n\<close>, \<open>\r\<close> or \<open>\r\n\<close>; the line
  ends are dropped and no empty line follows the last line end. The first argument is
  the line read so far.
\<close>

fun splitlines_from :: "string \<Rightarrow> string \<Rightarrow> string list" where
  "splitlines_from cur [] = (if cur = [] then [] else [cur])"
| "splitlines_from cur [c] =
     (if c = CHR 0x0A \<or> c = CHR 0x0D then [cur] else [cur @ [c]])"
| "splitlines_from cur (c # d # ds) =
     (if c = CHR 0x0D \<and> d = CHR 0x0A then cur # splitlines_from [] ds
      else if c = CHR 0x0A \<or> c = CHR 0x0D then cur # splitlines_from [] (d # ds)
      else splitlines_from (cur @ [c]) (d # ds))"

definition splitlines :: "string \<Rightarrow> string list" where
  "splitlines s = splitlines_from [] s"

text \<open>
  \<open>int(s)\<close> on a byte string: whitespace at both ends is ignored, then an optional sign
  and at least one decimal digit must make up the whole text; anything else raises
  \<open>ValueError\<close>, here \<^const>\<open>None\<close>. Python's integers are unbounded.
\<close>

definition is_digit :: "char \<Rightarrow> bool" where
  "is_digit c = (48 \<le> (of_char c :: nat) \<and> (of_char c :: nat) \<le> 57)"

definition digit_val :: "char \<Rightarrow> nat" where
  "digit_val c = of_char c - 48"

definition nat_of_digits :: "string \<Rightarrow> nat option" where
  "nat_of_digits ds =
     (if ds \<noteq> [] \<and> list_all is_digit ds
      then Some (foldl (\<lambda>a c. 10 * a + digit_val c) 0 ds) else None)"

definition int_of_str :: "string \<Rightarrow> int option" where
  "int_of_str s =
     (case strip s of
        [] \<Rightarrow> None
      | c # r \<Rightarrow>
          if c = CHR ''-'' then map_option (\<lambda>n. - int n) (nat_of_digits r)
          else if c = CHR ''+'' then map_option int (nat_of_digits r)
          else map_option int (nat_of_digits (c # r)))"

text \<open>\<open>'%d' % i\<close>: the decimal digits of an integer, with a minus sign when negative.\<close>

definition digit_char :: "nat \<Rightarrow> char" where
  "digit_char d = char_of (48 + d)"

function digits_of_nat :: "nat \<Rightarrow> string" where
  "digits_of_nat n =
     (if n < 10 then [digit_char n]
      else digits_of_nat (n div 10) @ [digit_char (n mod 10)])"
  by pat_completeness auto
termination
  by (relation "measure id") auto

declare digits_of_nat.simps [simp del]

definition format_d :: "int \<Rightarrow> string" where
  "format_d i = (if i < 0 then CHR ''-'' # digits_of_nat (nat (- i)) else digits_of_nat (nat i))"

subsection \<open>Errors\<close>

datatype py_error = TypeError | OSError

definition bind_err :: "py_error + 'a \<Rightarrow> ('a \<Rightarrow> py_error + 'b) \<Rightarrow> py_error + 'b" where
  "bind_err r f = (case r of Inl e \<Rightarrow> Inl e | Inr x \<Rightarrow> f x)"

subsection \<open>Session names\<close>

definition SCREEN :: string where
  "SCREEN = ''/usr/bin/screen''"

definition SLASH_SEP :: char where
  "SLASH_SEP = CHR ''_''"

text \<open>
  Modelled from the spec: \<open>rospy.names.ns_join\<close> is not part of this repository (it is
  \<open>rosgraph.names.ns_join\<close> of the ROS client library). The specification says of the
  call that the name is normalised to an absolute path, \<open>/\<close> put in front if missing.
  The library function does so for every name but a private one: a private name
  (\<open>~name\<close>) or a global name (\<open>/name\<close>) is returned as it is; else the name is appended
  to the namespace, with one separator between them. The properties below that depend
  on the join are stated for names that are not private.
\<close>

definition is_private :: "string \<Rightarrow> bool" where
  "is_private name = (case name of [] \<Rightarrow> False | c # _ \<Rightarrow> c = CHR ''~'')"

definition is_global :: "string \<Rightarrow> bool" where
  "is_global name = (case name of [] \<Rightarrow> False | c # _ \<Rightarrow> c = CHR ''/'')"

definition ns_join :: "string \<Rightarrow> string \<Rightarrow> string" where
  "ns_join ns name =
     (if is_private name \<or> is_global name then name
      else if ns = ''~'' then ''~'' @ name
      else if ns = [] then name
      else if last ns = CHR ''/'' then ns @ name
      else ns @ ''/'' @ name)"

text \<open>\<open>create_session_name(node)\<close>; the argument is \<^const>\<open>None\<close> for Python's \<open>None\<close>.\<close>

definition create_session_name :: "string option \<Rightarrow> string" where
  "create_session_name node =
     (case node of
        None \<Rightarrow> []
      | Some n \<Rightarrow>
          (let result = replace_str [SLASH_SEP] [SLASH_SEP, SLASH_SEP] (ns_join ''/'' n)
           in replace_str ''/'' [SLASH_SEP] result))"

definition session_name2node_name :: "string \<Rightarrow> string" where
  "session_name2node_name session =
     (let node_name = replace_str [SLASH_SEP, SLASH_SEP] ''//'' session;
          node_name = replace_str [SLASH_SEP] ''/'' node_name;
          node_name = replace_str ''//'' [SLASH_SEP] node_name
      in node_name)"

text \<open>
  \<open>split_session_name\<close> returns a pair whose first component is an integer on every path
  but the one for \<open>None\<close>, which returns the empty string.
\<close>

datatype pid_value = PidInt int | PidStr string

definition split_session_name :: "string option \<Rightarrow> pid_value \<times> string" where
  "split_session_name session =
     (case session of
        None \<Rightarrow> (PidStr [], [])
      | Some s \<Rightarrow>
          (let result = split_once CHR ''.'' s in
           if length result \<noteq> 2 then (PidInt (- 1), [])
           else (case int_of_str (strip (result ! 0)) of
                   None \<Rightarrow> (PidInt (- 1), [])
                 | Some pid \<Rightarrow>
                     (let node = split_all CHR 0x09 (result ! 1) in
                      if node = [] then (PidInt (- 1), [])
                      else (PidInt pid, strip (node ! 0))))))"

subsection \<open>Active screens\<close>

text \<open>
  \<open>'%d.%s' % (pid, nodepart)\<close> raises \<open>TypeError\<close> when \<open>pid\<close> is not a number.
\<close>

definition screen_name_of :: "pid_value \<Rightarrow> string \<Rightarrow> py_error + string" where
  "screen_name_of pid nodepart =
     (case pid of
        PidInt i \<Rightarrow> Inr (format_d i @ ''.'' @ nodepart)
      | PidStr _ \<Rightarrow> Inl TypeError)"

text \<open>
  The loop of \<open>get_active_screens\<close> over the lines of the output; the dictionary
  \<open>result\<close> is passed along.
\<close>

fun get_active_screens_loop ::
  "string \<Rightarrow> string list \<Rightarrow> (string \<rightharpoonup> string) \<Rightarrow> py_error + (string \<rightharpoonup> string)" where
  "get_active_screens_loop nodename [] result = Inr result"
| "get_active_screens_loop nodename (item # splits) result =
     (case split_session_name (Some item) of
        (pid, nodepart) \<Rightarrow>
          if pid \<noteq> PidInt (- 1) then
            (case screen_name_of pid nodepart of
               Inl e \<Rightarrow> Inl e
             | Inr screen_name \<Rightarrow>
                 if nodename \<noteq> [] then
                   (if prefix ''_'' nodepart then
                      (if nodename = session_name2node_name nodepart
                       then get_active_screens_loop nodename splits
                              (result(screen_name \<mapsto> nodename))
                       else get_active_screens_loop nodename splits result)
                    else get_active_screens_loop nodename splits result)
                 else get_active_screens_loop nodename splits
                        (result(screen_name \<mapsto> session_name2node_name nodepart)))
          else get_active_screens_loop nodename splits result)"

text \<open>
  \<open>get_active_screens(nodename)\<close>; \<open>output\<close> is what \<open>screen -ls\<close> wrote to its standard
  output, read by the supervised subprocess.
\<close>

definition get_active_screens :: "string \<Rightarrow> string \<Rightarrow> py_error + (string \<rightharpoonup> string)" where
  "get_active_screens nodename output =
     (if output \<noteq> [] then get_active_screens_loop nodename (splitlines output) Map.empty
      else Inr Map.empty)"

subsection \<open>File names\<close>

text \<open>
  \<open>LOG_PATH\<close> is computed once from the process environment when the module is loaded;
  it is a parameter here.
\<close>

definition get_logfile :: "string \<Rightarrow> string option \<Rightarrow> string option \<Rightarrow> string" where
  "get_logfile LOG_PATH session node =
     (case session of
        Some s \<Rightarrow> LOG_PATH @ s @ ''.log''
      | None \<Rightarrow>
          (case node of
             Some n \<Rightarrow> LOG_PATH @ create_session_name (Some n) @ ''.log''
           | None \<Rightarrow> LOG_PATH @ ''unknown'' @ ''.log''))"

definition get_ros_logfile :: "string \<Rightarrow> string option \<Rightarrow> string" where
  "get_ros_logfile LOG_PATH node =
     (case node of
        Some n \<Rightarrow> LOG_PATH @ replace_str ''/'' ''_'' (strip_chars ''/'' n) @ ''.log''
      | None \<Rightarrow> [])"

definition get_cfgfile :: "string \<Rightarrow> string option \<Rightarrow> string option \<Rightarrow> string" where
  "get_cfgfile LOG_PATH session node =
     (case session of
        Some s \<Rightarrow> LOG_PATH @ s @ ''.conf''
      | None \<Rightarrow>
          (case node of
             Some n \<Rightarrow> LOG_PATH @ create_session_name (Some n) @ ''.conf''
           | None \<Rightarrow> LOG_PATH @ ''unknown'' @ ''.conf''))"

definition get_pidfile :: "string \<Rightarrow> string option \<Rightarrow> string option \<Rightarrow> string" where
  "get_pidfile LOG_PATH session node =
     (case session of
        Some s \<Rightarrow> LOG_PATH @ s @ ''.pid''
      | None \<Rightarrow>
          (case node of
             Some n \<Rightarrow> LOG_PATH @ create_session_name (Some n) @ ''.pid''
           | None \<Rightarrow> LOG_PATH @ ''unknown'' @ ''.pid''))"

subsection \<open>The screen configuration\<close>

text \<open>
  The configuration file is the text written to it so far; an environment is a
  dictionary from names to values. \<open>_append_env\<close> returns the file and its result.
\<close>

definition append_env :: "string \<Rightarrow> string \<Rightarrow> (string \<rightharpoonup> string) \<Rightarrow> string \<times> bool" where
  "append_env cfgfile arg env =
     (case env arg of
        Some val \<Rightarrow>
          if val \<noteq> [] then (cfgfile @ ''setenv '' @ arg @ '' '' @ val @ [CHR 0x0A], True)
          else (cfgfile, False)
      | None \<Rightarrow> (cfgfile, False))"

definition builtin_keys :: "string list" where
  "builtin_keys =
     [''LD_LIBRARY_PATH'', ''ROS_ETC_DIR'', ''ROS_MASTER_URI'', ''ROS_HOSTNAME'',
      ''ROS_NAMESPACE'', ''ROSCONSOLE_FORMAT'', ''ROSCONSOLE_CONFIG_FILE'',
      ''RESPAWN_DELAY'', ''RESPAWN_MAX'', ''RESPAWN_MIN_RUNTIME'']"

text \<open>The loop of \<open>get_cmd\<close> over \<open>addkeys\<close>; \<open>environ\<close> is \<open>os.environ\<close>.\<close>

fun get_cmd_loop ::
  "(string \<rightharpoonup> string) \<Rightarrow> (string \<rightharpoonup> string) \<Rightarrow> string list \<Rightarrow> string \<Rightarrow> string" where
  "get_cmd_loop env environ [] f = f"
| "get_cmd_loop env environ (key # addkeys) f =
     (case append_env f key env of
        (f1, written) \<Rightarrow>
          if \<not> written then get_cmd_loop env environ addkeys (fst (append_env f1 key environ))
          else get_cmd_loop env environ addkeys f1)"

text \<open>
  \<open>get_cmd(node, env, keys)\<close> returns the text of the configuration file it wrote and the
  command prefix. Opening the file and creating its directory are left out.
\<close>

definition get_cmd ::
  "string \<Rightarrow> (string \<rightharpoonup> string) \<Rightarrow> string option \<Rightarrow> (string \<rightharpoonup> string) \<Rightarrow> string list
     \<Rightarrow> string \<times> string" where
  "get_cmd LOG_PATH environ node env keys =
     (let filename = get_cfgfile LOG_PATH None node;
          f = [];
          f = f @ ''logfile '' @ get_logfile LOG_PATH None node @ [CHR 0x0A];
          f = f @ ''logfile flush 0'' @ [CHR 0x0A];
          f = f @ ''defscrollback 10000'' @ [CHR 0x0A];
          addkeys = keys @ builtin_keys;
          f = get_cmd_loop env environ addkeys f
      in (f, SCREEN @ '' -c '' @ filename @ '' -L -dmS '' @ create_session_name node))"

text \<open>
  The setenv line of one name as the specification words it: from the caller's
  environment when the name has a non-empty value there, else from the host's
  environment when it has a non-empty value there, else none.
\<close>

definition spec_setenv_line ::
  "(string \<rightharpoonup> string) \<Rightarrow> (string \<rightharpoonup> string) \<Rightarrow> string \<Rightarrow> string" where
  "spec_setenv_line callerEnv hostEnv name =
     (if name \<in> dom callerEnv \<and> the (callerEnv name) \<noteq> []
      then ''setenv '' @ name @ '' '' @ the (callerEnv name) @ [CHR 0x0A]
      else if name \<in> dom hostEnv \<and> the (hostEnv name) \<noteq> []
      then ''setenv '' @ name @ '' '' @ the (hostEnv name) @ [CHR 0x0A]
      else [])"

subsection \<open>Removing the files of a node\<close>

text \<open>
  The file system maps a path to what is there. \<open>os.path.isfile\<close> holds for a regular
  file only; \<open>os.remove\<close> removes a regular file and raises \<open>OSError\<close> for a missing path
  or a directory. Access rights are not modelled.
\<close>

datatype fs_node = RegularFile | Directory

type_synonym filesystem = "string \<rightharpoonup> fs_node"

definition isfile :: "filesystem \<Rightarrow> string \<Rightarrow> bool" where
  "isfile fs p = (fs p = Some RegularFile)"

definition os_remove :: "string \<Rightarrow> filesystem \<Rightarrow> py_error + filesystem" where
  "os_remove p fs =
     (case fs p of
        Some RegularFile \<Rightarrow> Inr (fs(p := None))
      | _ \<Rightarrow> Inl OSError)"

definition delete_log :: "string \<Rightarrow> string option \<Rightarrow> filesystem \<Rightarrow> py_error + filesystem" where
  "delete_log LOG_PATH nodename fs =
     (let screen_log = get_logfile LOG_PATH None nodename;
          screen_conf = get_cfgfile LOG_PATH None nodename;
          pid_file = get_pidfile LOG_PATH None nodename;
          roslog = get_ros_logfile LOG_PATH nodename
      in bind_err (if isfile fs screen_log then os_remove screen_log fs else Inr fs) (\<lambda>fs.
         bind_err (if isfile fs screen_conf then os_remove screen_conf fs else Inr fs) (\<lambda>fs.
         bind_err (if isfile fs pid_file then os_remove pid_file fs else Inr fs) (\<lambda>fs.
         (if isfile fs roslog then os_remove roslog fs else Inr fs)))))"

text \<open>
  What the statement \<open>if os.path.isfile(p): os.remove(p)\<close> leaves of the file system.
\<close>

definition remove_if_file :: "string \<Rightarrow> filesystem \<Rightarrow> filesystem" where
  "remove_if_file p fs = (if fs p = Some RegularFile then fs(p := None) else fs)"

text \<open>
  The names that survive encoding and decoding: no \<open>/\<close> is directly followed by another
  \<open>/\<close> or by \<open>_\<close>, that is, no component but the last is empty and none starts with \<open>_\<close>.
\<close>

fun roundtrip_safe :: "string \<Rightarrow> bool" where
  "roundtrip_safe [] = True"
| "roundtrip_safe [c] = True"
| "roundtrip_safe (c # d # r) =
     (\<not> (c = CHR ''/'' \<and> (d = CHR ''/'' \<or> d = CHR ''_'')) \<and> roundtrip_safe (d # r))"

text \<open>
  What one line of the output adds to the dictionary in the loop of
  \<open>get_active_screens\<close>: a key and a value, or nothing.
\<close>

definition screen_entry :: "string \<Rightarrow> string \<Rightarrow> (string \<times> string) option" where
  "screen_entry nodename item =
     (case split_session_name (Some item) of
        (PidInt pid, nodepart) \<Rightarrow>
          if pid = - 1 then None
          else if nodename \<noteq> [] then
            (if prefix ''_'' nodepart \<and> nodename = session_name2node_name nodepart
             then Some (format_d pid @ ''.'' @ nodepart, nodename) else None)
          else Some (format_d pid @ ''.'' @ nodepart, session_name2node_name nodepart)
      | (PidStr s, nodepart) \<Rightarrow> None)"

text \<open>
  The entries of the result as the specification words them: a key \<open>"<pid>.<fragment>"\<close>
  is mapped to a name when some line has a valid pid other than \<open>-1\<close> and that fragment;
  with a filter name, the fragment must start with the delimiter and decode to the
  filter name, which is the value; without one, the value is the decoded fragment.
\<close>

definition spec_listed :: "string \<Rightarrow> string list \<Rightarrow> string \<Rightarrow> string \<Rightarrow> bool" where
  "spec_listed filterWorkerName lines key name =
     (\<exists>item \<in> set lines.
        (case split_session_name (Some item) of
           (PidInt pid, fragment) \<Rightarrow>
             pid \<noteq> - 1 \<and> key = format_d pid @ ''.'' @ fragment \<and>
             (if filterWorkerName \<noteq> []
              then prefix ''_'' fragment \<and> session_name2node_name fragment = filterWorkerName
                   \<and> name = filterWorkerName
              else name = session_name2node_name fragment)
         | (PidStr s, fragment) \<Rightarrow> False))"

text \<open>
  A text with nothing to trim: it is empty, or neither its first nor its last character
  is whitespace.
\<close>

definition trimmed :: "string \<Rightarrow> bool" where
  "trimmed s = (case s of [] \<Rightarrow> True | c # _ \<Rightarrow> \<not> is_space c \<and> \<not> is_space (last s))"

section \<open>Properties\<close>

subsection \<open>Replacing and splitting\<close>

lemma replace_str_single:
  "replace_str [a] new s = concat (map (\<lambda>c. if c = a then new else [c]) s)"
  by (induction s) auto

lemma replace_str_single_notin:
  "a \<notin> set new \<Longrightarrow> a \<notin> set (replace_str [a] new s)"
  by (simp add: replace_str_single)

lemma ns_join_root:
  "ns_join ''/'' name = (if is_private name \<or> is_global name then name else CHR ''/'' # name)"
  by (simp add: ns_join_def)

lemma create_session_name_chars:
  "create_session_name (Some name) =
     concat (map (\<lambda>c. if c = CHR ''_'' then ''__'' else if c = CHR ''/'' then ''_'' else [c])
              (ns_join ''/'' name))"
proof -
  have "concat (map (\<lambda>c. if c = CHR ''/'' then ''_'' else [c])
          (concat (map (\<lambda>c. if c = CHR ''_'' then ''__'' else [c]) s))) =
        concat (map (\<lambda>c. if c = CHR ''_'' then ''__'' else if c = CHR ''/'' then ''_'' else [c]) s)"
    for s :: string
    by (induction s) auto
  then show ?thesis
    by (simp add: create_session_name_def Let_def SLASH_SEP_def replace_str_single)
qed

lemma split_once_no_sep: "sep \<notin> set s \<Longrightarrow> split_once sep s = [s]"
proof -
  assume "sep \<notin> set s"
  then have h: "dropWhile (\<lambda>c. c \<noteq> sep) s = []" by auto
  show ?thesis unfolding split_once_def h by simp
qed

subsection \<open>The session name of a node\<close>

text \<open>
  C8: for every node name, also \<open>None\<close>, the session name that \<open>create_session_name\<close>
  returns has no \<open>/\<close> in it.
\<close>

theorem create_session_name_no_slash:
  "CHR ''/'' \<notin> set (create_session_name node)"
proof (cases node)
  case None
  then show ?thesis by (simp add: create_session_name_def)
next
  case (Some n)
  have "CHR ''/'' \<notin> set (replace_str ''/'' [SLASH_SEP] r)" for r
    by (rule replace_str_single_notin) (simp add: SLASH_SEP_def)
  with Some show ?thesis by (simp add: create_session_name_def Let_def)
qed

text \<open>
  C5, as stated, fails: only \<open>None\<close> is answered with the empty string. The empty name
  is joined to the root namespace like every other name, and its session name is \<open>_\<close>.
\<close>

theorem create_session_name_empty_counterexample:
  "create_session_name (Some []) = ''_'' \<and> create_session_name (Some []) \<noteq> []"
  by (simp add: create_session_name_def ns_join_def is_private_def is_global_def SLASH_SEP_def)

text \<open>
  C5, amended: \<open>create_session_name(None)\<close> is the empty string. For every other name that
  is not private (does not start with \<open>~\<close>), the empty name too, \<open>/\<close> is put in front
  unless the name starts with it, and then every character is translated on its own:
  \<open>_\<close> to \<open>__\<close> and \<open>/\<close> to \<open>_\<close>. This is what doubling every \<open>_\<close> first and replacing every
  \<open>/\<close> afterwards comes to.
\<close>

theorem create_session_name_steps:
  "create_session_name None = [] \<and>
   (\<not> is_private name \<longrightarrow>
      create_session_name (Some name) =
        concat (map (\<lambda>c. if c = CHR ''_'' then ''__'' else if c = CHR ''/'' then ''_'' else [c])
                 (if prefix ''/'' name then name else ''/'' @ name)))"
proof -
  have "\<not> is_private name \<Longrightarrow>
      ns_join ''/'' name = (if prefix ''/'' name then name else ''/'' @ name)"
    by (cases name) (auto simp add: ns_join_root is_global_def)
  then show ?thesis
    by (simp add: create_session_name_chars) (simp add: create_session_name_def)
qed

theorem create_session_name_steps_witness:
  "\<not> is_private ''a_b/c'' \<and> create_session_name (Some ''a_b/c'') = ''_a__b_c''
   \<and> \<not> is_private [] \<and> create_session_name (Some []) = ''_''"
  using create_session_name_steps [of "''a_b/c''"] create_session_name_steps [of "[]"]
  by (simp add: is_private_def)

subsection \<open>Encoding and decoding a node name\<close>

lemma ns_join_global: "prefix ''/'' name \<Longrightarrow> ns_join ''/'' name = name"
  by (cases name) (auto simp add: ns_join_root is_global_def)

lemma decode_plain:
  "c \<noteq> CHR ''_'' \<Longrightarrow> c \<noteq> CHR ''/'' \<Longrightarrow>
     session_name2node_name (c # e) = c # session_name2node_name e"
  by (simp add: session_name2node_name_def SLASH_SEP_def)

lemma decode_double:
  "session_name2node_name (CHR ''_'' # CHR ''_'' # e) = CHR ''_'' # session_name2node_name e"
  by (simp add: session_name2node_name_def SLASH_SEP_def)

lemma decode_single_end: "session_name2node_name ''_'' = ''/''"
  by (simp add: session_name2node_name_def SLASH_SEP_def)

lemma decode_empty: "session_name2node_name [] = []"
  by (simp add: session_name2node_name_def SLASH_SEP_def)

lemma decode_single:
  "c \<noteq> CHR ''_'' \<Longrightarrow> c \<noteq> CHR ''/'' \<Longrightarrow>
     session_name2node_name (CHR ''_'' # c # e) = CHR ''/'' # c # session_name2node_name e"
  by (simp add: session_name2node_name_def SLASH_SEP_def)

lemma decode_encode_safe:
  "roundtrip_safe s \<Longrightarrow>
     session_name2node_name
       (concat (map (\<lambda>c. if c = CHR ''_'' then ''__'' else if c = CHR ''/'' then ''_'' else [c]) s))
     = s"
proof (induction s rule: roundtrip_safe.induct)
  case 1
  show ?case by (simp add: decode_empty)
next
  case (2 c)
  show ?case by (simp add: decode_empty decode_plain decode_double decode_single_end)
next
  case (3 c d r)
  then show ?case
    by (auto simp add: decode_plain decode_double decode_single split: if_splits)
qed

lemma roundtrip_safe_Cons:
  "c \<noteq> CHR ''/'' \<Longrightarrow> roundtrip_safe (c # z) = roundtrip_safe z"
  by (cases z) auto

lemma collapse_pair:
  "replace_str ''//'' ''_'' (CHR ''/'' # CHR ''/'' # r) = CHR ''_'' # replace_str ''//'' ''_'' r"
  by simp

lemma collapse_other:
  "c \<noteq> CHR ''/'' \<Longrightarrow>
     replace_str ''//'' ''_'' (c # cs) = c # replace_str ''//'' ''_'' cs"
  by simp

lemma collapse_lone:
  "d \<noteq> CHR ''/'' \<Longrightarrow>
     replace_str ''//'' ''_'' (CHR ''/'' # d # r) =
       CHR ''/'' # d # replace_str ''//'' ''_'' r"
  by simp

lemma collapse_safe:
  "CHR ''_'' \<notin> set y \<Longrightarrow> roundtrip_safe (replace_str ''//'' ''_'' y)"
proof (induction y rule: length_induct)
  case (1 y)
  note IH = 1(1)
  note no_sep = 1(2)
  show ?case
  proof (cases y)
    case Nil
    then show ?thesis by simp
  next
    case y: (Cons c cs)
    show ?thesis
    proof (cases "c = CHR ''/''")
      case False
      from no_sep y have "CHR ''_'' \<notin> set cs" by simp
      moreover have "length cs < length y" by (simp add: y)
      ultimately have "roundtrip_safe (replace_str ''//'' ''_'' cs)" using IH by blast
      then show ?thesis
        unfolding y collapse_other [OF False] roundtrip_safe_Cons [OF False] .
    next
      case c: True
      show ?thesis
      proof (cases cs)
        case Nil
        then show ?thesis by (simp add: y c)
      next
        case cs: (Cons d r)
        from no_sep y cs have nr: "CHR ''_'' \<notin> set r" and nd: "d \<noteq> CHR ''_''"
          by auto
        have "length r < length y" by (simp add: y cs)
        with nr have r: "roundtrip_safe (replace_str ''//'' ''_'' r)" using IH by blast
        show ?thesis
        proof (cases "d = CHR ''/''")
          case True
          have "roundtrip_safe (CHR ''_'' # replace_str ''//'' ''_'' r)"
            using r by (simp add: roundtrip_safe_Cons)
          then show ?thesis unfolding y cs c True collapse_pair .
        next
          case False
          have "roundtrip_safe (d # replace_str ''//'' ''_'' r)"
            using r by (simp add: roundtrip_safe_Cons [OF False])
          then have "roundtrip_safe (CHR ''/'' # d # replace_str ''//'' ''_'' r)"
            using False nd by simp
          then show ?thesis unfolding y cs c collapse_lone [OF False] .
        qed
      qed
    qed
  qed
qed

lemma decode_safe: "roundtrip_safe (session_name2node_name e)"
proof -
  have "CHR ''_'' \<notin> set (replace_str ''_'' ''/'' x)" for x
    by (rule replace_str_single_notin) simp
  then show ?thesis
    by (simp add: session_name2node_name_def SLASH_SEP_def Let_def collapse_safe)
qed

text \<open>
  C1, as stated, fails: the name \<open>/a//b\<close> starts with \<open>/\<close> and has no \<open>_\<close> in any component,
  yet it is encoded as \<open>_a__b\<close> and decoded as \<open>/a_b\<close>: two adjacent separators look like
  an escaped \<open>_\<close>.
\<close>

theorem session_name_roundtrip_counterexample:
  "prefix ''/'' ''/a//b'' \<and> CHR ''_'' \<notin> set ''/a//b'' \<and>
   session_name2node_name (create_session_name (Some ''/a//b'')) = ''/a_b'' \<and>
   session_name2node_name (create_session_name (Some ''/a//b'')) \<noteq> ''/a//b''"
  by (simp add: session_name2node_name_def create_session_name_def ns_join_def
      is_private_def is_global_def SLASH_SEP_def)

text \<open>
  C1, amended: for a name that starts with \<open>/\<close>, decoding its session name gives the name
  back exactly when no \<open>/\<close> of the name is directly followed by \<open>/\<close> or \<open>_\<close>. So the round
  trip holds for every such name in which no component but the last is empty and none
  starts with \<open>_\<close>; a \<open>_\<close> inside or at the end of a component, also repeated, does no
  harm.
\<close>

theorem session_name_roundtrip:
  "prefix ''/'' name \<Longrightarrow>
     (session_name2node_name (create_session_name (Some name)) = name) = roundtrip_safe name"
proof
  assume p: "prefix ''/'' name"
    and "session_name2node_name (create_session_name (Some name)) = name"
  then show "roundtrip_safe name" using decode_safe [of "create_session_name (Some name)"]
    by simp
next
  assume "prefix ''/'' name" and "roundtrip_safe name"
  then show "session_name2node_name (create_session_name (Some name)) = name"
    by (simp add: create_session_name_chars ns_join_global decode_encode_safe)
qed

theorem session_name_roundtrip_witness:
  "prefix ''/'' ''/my_ns_/node_1/'' \<and> roundtrip_safe ''/my_ns_/node_1/'' \<and>
   session_name2node_name (create_session_name (Some ''/my_ns_/node_1/'')) = ''/my_ns_/node_1/'' \<and>
   create_session_name (Some ''/my_ns_/node_1/'') = ''_my__ns___node__1_'' \<and>
   prefix ''/'' ''/_a'' \<and> \<not> roundtrip_safe ''/_a'' \<and>
   session_name2node_name (create_session_name (Some ''/_a'')) \<noteq> ''/_a''"
proof -
  have p1: "prefix ''/'' ''/my_ns_/node_1/''" by simp
  have s1: "roundtrip_safe ''/my_ns_/node_1/''" by simp
  have e1: "create_session_name (Some ''/my_ns_/node_1/'') = ''_my__ns___node__1_''"
    by (simp add: create_session_name_chars ns_join_global)
  have p2: "prefix ''/'' ''/_a''" by simp
  have s2: "\<not> roundtrip_safe ''/_a''" by simp
  have r1: "session_name2node_name (create_session_name (Some ''/my_ns_/node_1/'')) =
      ''/my_ns_/node_1/''"
    using session_name_roundtrip [OF p1] s1 by (rule iffD2)
  have r2: "session_name2node_name (create_session_name (Some ''/_a'')) \<noteq> ''/_a''"
    using session_name_roundtrip [OF p2] s2 by simp
  show ?thesis by (intro conjI p1 s1 r1 e1 p2 s2 r2)
qed

subsection \<open>Splitting a session name\<close>

text \<open>
  C2, as stated, fails: for \<open>None\<close> the function returns a pair of empty strings, not
  \<open>(-1, '')\<close>.
\<close>

theorem split_session_name_None_counterexample:
  "split_session_name None = (PidStr [], []) \<and> split_session_name None \<noteq> (PidInt (- 1), [])"
  by (simp add: split_session_name_def)

text \<open>
  C2, amended: \<open>split_session_name(None)\<close> is the pair of empty strings \<open>('', '')\<close>; for
  every string without a \<open>.\<close> the result is \<open>(-1, '')\<close>.
\<close>

theorem split_session_name_invalid:
  "split_session_name None = (PidStr [], []) \<and>
   (CHR ''.'' \<notin> set s \<longrightarrow> split_session_name (Some s) = (PidInt (- 1), []))"
  by (simp add: split_session_name_def split_once_no_sep)

theorem split_session_name_invalid_witness:
  "CHR ''.'' \<notin> set ''not-a-session'' \<and>
   split_session_name (Some ''not-a-session'') = (PidInt (- 1), [])"
  using split_session_name_invalid [of "''not-a-session''"] by simp

lemma split_once_at:
  "sep \<notin> set a \<Longrightarrow> split_once sep (a @ sep # rest) = [a, rest]"
proof -
  assume n: "sep \<notin> set a"
  then have d: "dropWhile (\<lambda>c. c \<noteq> sep) (a @ sep # rest) = sep # rest"
    by (induction a) auto
  from n have t: "takeWhile (\<lambda>c. c \<noteq> sep) (a @ sep # rest) = a"
    by (induction a) auto
  show ?thesis unfolding split_once_def d t by simp
qed

lemma split_all_first:
  "\<exists>ws. split_all sep s = takeWhile (\<lambda>c. c \<noteq> sep) s # ws"
  by (induction s) auto

lemma split_all_nth0:
  "split_all sep s \<noteq> [] \<and> split_all sep s ! 0 = takeWhile (\<lambda>c. c \<noteq> sep) s"
  using split_all_first [of sep s] by auto

lemma digit_facts:
  "is_digit c \<Longrightarrow> \<not> is_space c \<and> c \<noteq> CHR ''.'' \<and> c \<noteq> CHR ''-'' \<and> c \<noteq> CHR ''+''"
  by (auto simp add: is_digit_def is_space_def)

lemma dropWhile_keeps:
  "xs \<noteq> [] \<Longrightarrow> \<not> P (hd xs) \<Longrightarrow> dropWhile P xs = xs"
  by (cases xs) auto

lemma strip_id:
  assumes "s \<noteq> []" "\<not> is_space (hd s)" "\<not> is_space (last s)"
  shows "strip s = s"
proof -
  from assms have 1: "dropWhile is_space s = s" by (simp add: dropWhile_keeps)
  from assms have 2: "dropWhile is_space (rev s) = rev s"
    by (simp add: dropWhile_keeps hd_rev)
  show ?thesis by (simp add: strip_def 1 2)
qed

lemma strip_digits:
  assumes "ds \<noteq> []" "list_all is_digit ds"
  shows "strip ds = ds"
proof -
  from assms have "is_digit (hd ds)" "is_digit (last ds)"
    by (auto simp add: list_all_iff)
  then show ?thesis using assms(1) digit_facts by (intro strip_id) auto
qed

lemma int_of_str_digits:
  assumes "ds \<noteq> []" "list_all is_digit ds"
  shows "int_of_str ds = Some (int (foldl (\<lambda>a c. 10 * a + digit_val c) 0 ds))"
proof -
  from assms obtain c r where ds: "ds = c # r" by (cases ds) auto
  with assms have "is_digit c" by simp
  then have c: "c \<noteq> CHR ''-''" "c \<noteq> CHR ''+''" using digit_facts by auto
  from assms have n: "nat_of_digits ds = Some (foldl (\<lambda>a c. 10 * a + digit_val c) 0 ds)"
    by (simp add: nat_of_digits_def)
  from assms have "strip ds = c # r" by (simp add: strip_digits ds)
  then have "int_of_str ds = map_option int (nat_of_digits (c # r))"
    by (simp add: int_of_str_def c)
  with n show ?thesis by (simp add: ds)
qed

lemma split_session_name_dot:
  assumes "CHR ''.'' \<notin> set a"
  shows "split_session_name (Some (a @ CHR ''.'' # rest)) =
     (case int_of_str (strip a) of
        None \<Rightarrow> (PidInt (- 1), [])
      | Some n \<Rightarrow> (PidInt n, strip (takeWhile (\<lambda>c. c \<noteq> CHR 0x09) rest)))"
  using assms
  by (simp add: split_session_name_def split_once_at Let_def split_all_nth0 split: option.splits)

lemma dropWhile_all: "list_all P xs \<Longrightarrow> dropWhile P (xs @ ys) = dropWhile P ys"
  by (induction xs) auto

lemma dropWhile_blank: "list_all P xs \<Longrightarrow> dropWhile P xs = []"
  by (induction xs) auto

lemma dot_facts: "\<not> is_space CHR ''.''" "\<not> is_digit CHR ''.''"
  by (simp_all add: is_space_def is_digit_def)

lemma strip_spec:
  assumes "list_all is_space l" "list_all is_space r" "trimmed m"
  shows "strip (l @ m @ r) = m"
proof (cases m)
  case Nil
  from assms(1,2) have "list_all is_space (l @ r)" by simp
  then have e: "dropWhile is_space (l @ r) = []" by (rule dropWhile_blank)
  have "strip (l @ r) = []" unfolding strip_def e by simp
  then show ?thesis by (simp add: Nil)
next
  case (Cons c cs)
  with assms(3) have h: "\<not> is_space (hd m)" and t: "\<not> is_space (last m)" and n: "m \<noteq> []"
    by (simp_all add: trimmed_def)
  from n h have "dropWhile is_space (m @ r) = m @ r" by (simp add: dropWhile_keeps)
  with assms(1) have 1: "dropWhile is_space (l @ m @ r) = m @ r" by (simp add: dropWhile_all)
  from assms(2) have "list_all is_space (rev r)" by (simp add: list_all_iff)
  then have "dropWhile is_space (rev r @ rev m) = dropWhile is_space (rev m)"
    by (rule dropWhile_all)
  also from n t have "\<dots> = rev m" by (simp add: dropWhile_keeps hd_rev)
  finally have 2: "dropWhile is_space (rev (m @ r)) = rev m" by simp
  show ?thesis unfolding strip_def 1 2 by simp
qed

lemma space_facts: "is_space c \<Longrightarrow> c \<noteq> CHR ''.'' \<and> \<not> is_digit c"
  by (auto simp add: is_space_def is_digit_def)

lemma sign_facts:
  "\<not> is_space CHR ''-''" "\<not> is_space CHR ''+''" "\<not> is_digit CHR ''-''" "\<not> is_digit CHR ''+''"
  by (simp_all add: is_space_def is_digit_def)

lemma int_of_str_signed:
  assumes "ds \<noteq> []" "list_all is_digit ds" "sg \<in> {[], ''-'', ''+''}"
  shows "int_of_str (sg @ ds) =
     Some ((if sg = ''-'' then - 1 else 1) * int (foldl (\<lambda>a c. 10 * a + digit_val c) 0 ds))"
proof -
  from assms(1,2) have n: "nat_of_digits ds = Some (foldl (\<lambda>a c. 10 * a + digit_val c) 0 ds)"
    by (simp add: nat_of_digits_def)
  from assms(1,2) have l: "\<not> is_space (last ds)"
    using digit_facts by (auto simp add: list_all_iff)
  consider "sg = []" | "sg = ''-''" | "sg = ''+''" using assms(3) by auto
  then show ?thesis
  proof cases
    case 1
    with assms show ?thesis by (simp add: int_of_str_digits)
  next
    case 2
    from l assms(1) have "strip (CHR ''-'' # ds) = CHR ''-'' # ds"
      by (intro strip_id) (simp_all add: sign_facts)
    then show ?thesis by (simp add: 2 int_of_str_def n)
  next
    case 3
    from l assms(1) have "strip (CHR ''+'' # ds) = CHR ''+'' # ds"
      by (intro strip_id) (simp_all add: sign_facts)
    then show ?thesis by (simp add: 3 int_of_str_def n)
  qed
qed

lemma takeWhile_to_tab:
  assumes "CHR 0x09 \<notin> set x" "case tail of [] \<Rightarrow> True | c # _ \<Rightarrow> c = CHR 0x09"
  shows "takeWhile (\<lambda>c. c \<noteq> CHR 0x09) (x @ tail) = x"
  using assms by (induction x) (auto split: list.splits)

lemma split_session_name_blanks:
  assumes ds: "ds \<noteq> []" "list_all is_digit ds" and sg: "sg \<in> {[], ''-'', ''+''}"
    and w: "list_all is_space w1" "list_all is_space w2" "list_all is_space w3"
      "list_all is_space w4"
    and frag: "trimmed frag" "CHR 0x09 \<notin> set (w3 @ frag @ w4)"
    and tail: "case tail of [] \<Rightarrow> True | c # _ \<Rightarrow> c = CHR 0x09"
  shows "split_session_name (Some (w1 @ sg @ ds @ w2 @ ''.'' @ w3 @ frag @ w4 @ tail)) =
     (PidInt ((if sg = ''-'' then - 1 else 1) * int (foldl (\<lambda>a c. 10 * a + digit_val c) 0 ds)),
      frag)"
proof -
  let ?a = "w1 @ (sg @ ds) @ w2"
  let ?rest = "(w3 @ frag @ w4) @ tail"
  have nd: "CHR ''.'' \<notin> set ?a"
    using ds(2) sg w(1,2) by (auto simp add: list_all_iff dot_facts)
  from ds have "is_digit (last ds)" "is_digit (hd ds)" by (auto simp add: list_all_iff)
  then have "\<not> is_space (last (sg @ ds))" "\<not> is_space (hd (sg @ ds))"
    using ds(1) sg digit_facts sign_facts by auto
  then have "trimmed (sg @ ds)" using ds(1) by (cases "sg @ ds") (auto simp add: trimmed_def)
  with w(1,2) have sa: "strip ?a = sg @ ds" by (rule strip_spec)
  have tw: "takeWhile (\<lambda>c. c \<noteq> CHR 0x09) ?rest = w3 @ frag @ w4"
    using frag(2) tail by (rule takeWhile_to_tab)
  from w(3,4) frag(1) have sf: "strip (w3 @ frag @ w4) = frag" by (rule strip_spec)
  have "split_session_name (Some (?a @ CHR ''.'' # ?rest)) =
     (case int_of_str (strip ?a) of
        None \<Rightarrow> (PidInt (- 1), [])
      | Some n \<Rightarrow> (PidInt n, strip (takeWhile (\<lambda>c. c \<noteq> CHR 0x09) ?rest)))"
    using nd by (rule split_session_name_dot)
  then show ?thesis unfolding sa tw sf int_of_str_signed [OF ds sg] by simp
qed

lemma mem_dropWhile: "x \<in> set xs \<Longrightarrow> \<not> P x \<Longrightarrow> x \<in> set (dropWhile P xs)"
  by (induction xs) auto

lemma mem_strip: "c \<in> set s \<Longrightarrow> \<not> is_space c \<Longrightarrow> c \<in> set (strip s)"
  by (simp add: strip_def mem_dropWhile)

lemma nat_of_digits_None: "c \<in> set r \<Longrightarrow> \<not> is_digit c \<Longrightarrow> nat_of_digits r = None"
  by (auto simp add: nat_of_digits_def list_all_iff)

lemma int_of_str_None:
  assumes "c \<in> set s" "\<not> is_digit c" "\<not> is_space c" "c \<noteq> CHR ''-''" "c \<noteq> CHR ''+''"
  shows "int_of_str s = None"
proof (cases "strip s")
  case Nil
  then show ?thesis by (simp add: int_of_str_def)
next
  case (Cons c0 r)
  from assms(1,3) have m: "c \<in> set (c0 # r)" unfolding Cons [symmetric] by (rule mem_strip)
  then have 1: "nat_of_digits (c0 # r) = None" using assms(2) by (rule nat_of_digits_None)
  have 2: "nat_of_digits r = None" if "c0 = CHR ''-'' \<or> c0 = CHR ''+''"
  proof -
    from that m assms(4,5) have "c \<in> set r" by auto
    then show ?thesis using assms(2) by (rule nat_of_digits_None)
  qed
  show ?thesis by (simp add: int_of_str_def Cons 1 2)
qed

lemma strip_blank: "list_all is_space s \<Longrightarrow> strip s = []"
proof -
  assume "list_all is_space s"
  then have e: "dropWhile is_space s = []" by (rule dropWhile_blank)
  show ?thesis unfolding strip_def e by simp
qed

lemma split_session_name_not_int:
  assumes "CHR ''.'' \<notin> set a"
    and "list_all is_space a \<or>
         (c \<in> set a \<and> \<not> is_digit c \<and> \<not> is_space c \<and> c \<noteq> CHR ''-'' \<and> c \<noteq> CHR ''+'')"
  shows "split_session_name (Some (a @ ''.'' @ rest)) = (PidInt (- 1), [])"
proof -
  have "int_of_str (strip a) = None"
  proof (cases "list_all is_space a")
    case True
    then have e: "strip a = []" by (rule strip_blank)
    have "strip [] = []" by (simp add: strip_def)
    then show ?thesis unfolding e int_of_str_def by simp
  next
    case False
    with assms(2) have c: "c \<in> set a" "\<not> is_digit c" "\<not> is_space c" "c \<noteq> CHR ''-''"
      "c \<noteq> CHR ''+''" by auto
    from c(1,3) have "c \<in> set (strip a)" by (rule mem_strip)
    then show ?thesis using c(2-5) by (rule int_of_str_None)
  qed
  then show ?thesis using assms(1) by (simp add: split_session_name_dot)
qed

text \<open>
  C4: take a line made of optional whitespace, an optional sign, a non-empty digit
  string, optional whitespace, a \<open>.\<close>, then optional whitespace without a tab, a fragment
  that neither starts nor ends with whitespace and has no tab, optional whitespace
  without a tab, and then nothing or a tab followed by any text. The line is split into
  the number the digits write in decimal, with its sign, and exactly the fragment: the
  whitespace at both ends of both parts and everything from the first tab on are gone.
  When the part before the first \<open>.\<close> is blank or has a character that is neither a
  digit, a sign nor whitespace, the result is \<open>(-1, '')\<close>. In general the line is split at
  its first \<open>.\<close>, and the result is \<open>(-1, '')\<close> when \<open>int\<close> fails on the first part, else
  the integer and the trimmed text before the first tab.
\<close>

theorem split_session_name_parts:
  "(ds \<noteq> [] \<and> list_all is_digit ds \<and> sg \<in> {[], ''-'', ''+''} \<and>
    list_all is_space w1 \<and> list_all is_space w2 \<and> list_all is_space w3 \<and>
    list_all is_space w4 \<and> trimmed frag \<and> CHR 0x09 \<notin> set (w3 @ frag @ w4) \<and>
    (case tail of [] \<Rightarrow> True | c # _ \<Rightarrow> c = CHR 0x09) \<longrightarrow>
      split_session_name (Some (w1 @ sg @ ds @ w2 @ ''.'' @ w3 @ frag @ w4 @ tail)) =
        (PidInt ((if sg = ''-'' then - 1 else 1)
                  * int (foldl (\<lambda>a c. 10 * a + digit_val c) 0 ds)),
         frag)) \<and>
   (CHR ''.'' \<notin> set a \<and>
    (list_all is_space a \<or>
     (c \<in> set a \<and> \<not> is_digit c \<and> \<not> is_space c \<and> c \<noteq> CHR ''-'' \<and> c \<noteq> CHR ''+'')) \<longrightarrow>
      split_session_name (Some (a @ ''.'' @ rest)) = (PidInt (- 1), [])) \<and>
   (CHR ''.'' \<notin> set a \<longrightarrow>
      split_session_name (Some (a @ ''.'' @ rest)) =
        (case int_of_str (strip a) of
           None \<Rightarrow> (PidInt (- 1), [])
         | Some n \<Rightarrow> (PidInt n, strip (takeWhile (\<lambda>c. c \<noteq> CHR 0x09) rest))))"
proof (intro conjI impI)
  assume "ds \<noteq> [] \<and> list_all is_digit ds \<and> sg \<in> {[], ''-'', ''+''} \<and>
    list_all is_space w1 \<and> list_all is_space w2 \<and> list_all is_space w3 \<and>
    list_all is_space w4 \<and> trimmed frag \<and> CHR 0x09 \<notin> set (w3 @ frag @ w4) \<and>
    (case tail of [] \<Rightarrow> True | c # _ \<Rightarrow> c = CHR 0x09)"
  then show "split_session_name (Some (w1 @ sg @ ds @ w2 @ ''.'' @ w3 @ frag @ w4 @ tail)) =
        (PidInt ((if sg = ''-'' then - 1 else 1)
                  * int (foldl (\<lambda>a c. 10 * a + digit_val c) 0 ds)),
         frag)"
    by (intro split_session_name_blanks) (elim conjE, assumption)+
next
  assume "CHR ''.'' \<notin> set a \<and>
    (list_all is_space a \<or>
     (c \<in> set a \<and> \<not> is_digit c \<and> \<not> is_space c \<and> c \<noteq> CHR ''-'' \<and> c \<noteq> CHR ''+''))"
  then show "split_session_name (Some (a @ ''.'' @ rest)) = (PidInt (- 1), [])"
    by (intro split_session_name_not_int) (elim conjE, assumption)+
next
  assume "CHR ''.'' \<notin> set a"
  then show "split_session_name (Some (a @ ''.'' @ rest)) =
        (case int_of_str (strip a) of
           None \<Rightarrow> (PidInt (- 1), [])
         | Some n \<Rightarrow> (PidInt n, strip (takeWhile (\<lambda>c. c \<noteq> CHR 0x09) rest)))"
    by (simp add: split_session_name_dot)
qed

theorem split_session_name_parts_witness:
  "split_session_name (Some (''12345._foo'' @ [CHR 0x09] @ ''status text'')) =
     (PidInt 12345, ''_foo'') \<and>
   split_session_name
     (Some ([CHR 0x09] @ '' 12345 '' @ [CHR 0x09] @ ''. _foo '' @ [CHR 0x09] @ ''status text'')) =
     (PidInt 12345, ''_foo'') \<and>
   split_session_name (Some '' -7 .a b '') = (PidInt (- 7), ''a b'') \<and>
   split_session_name (Some ''pid .x'') = (PidInt (- 1), []) \<and>
   split_session_name (Some '' .x'') = (PidInt (- 1), [])"
proof -
  have 1: "split_session_name (Some (''12345._foo'' @ [CHR 0x09] @ ''status text'')) =
     (PidInt 12345, ''_foo'')"
    using split_session_name_parts [of "''12345''" "[]" "[]" "[]" "[]" "[]" "''_foo''"
        "[CHR 0x09] @ ''status text''"]
    by (simp add: is_digit_def is_space_def trimmed_def digit_val_def)
  have 2: "split_session_name
     (Some ([CHR 0x09] @ '' 12345 '' @ [CHR 0x09] @ ''. _foo '' @ [CHR 0x09] @ ''status text'')) =
     (PidInt 12345, ''_foo'')"
    using split_session_name_parts [of "''12345''" "[]" "[CHR 0x09, CHR '' '']"
        "[CHR '' '', CHR 0x09]" "'' ''" "'' ''" "''_foo''" "[CHR 0x09] @ ''status text''"]
    by (simp add: is_digit_def is_space_def trimmed_def digit_val_def)
  have 3: "split_session_name (Some '' -7 .a b '') = (PidInt (- 7), ''a b'')"
    using split_session_name_parts [of "''7''" "''-''" "'' ''" "'' ''" "[]" "'' ''" "''a b''" "[]"]
    by (simp add: is_digit_def is_space_def trimmed_def digit_val_def)
  have 4: "split_session_name (Some ''pid .x'') = (PidInt (- 1), [])"
    using split_session_name_parts [of _ _ _ _ _ _ _ _ "''pid ''" "CHR ''p''" "''x''"]
    by (simp add: is_digit_def is_space_def)
  have 5: "split_session_name (Some '' .x'') = (PidInt (- 1), [])"
    using split_session_name_parts [of _ _ _ _ _ _ _ _ "'' ''" _ "''x''"]
    by (simp add: is_digit_def is_space_def)
  show ?thesis by (intro conjI 1 2 3 4 5)
qed

subsection \<open>The dictionary of active screens\<close>

lemma split_session_name_int:
  "\<exists>i frag. split_session_name (Some s) = (PidInt i, frag)"
  by (simp add: split_session_name_def Let_def split: option.splits)

lemma digit_char_not_dot: "d < 10 \<Longrightarrow> digit_char d \<noteq> CHR ''.''"
proof
  assume d: "d < 10" and "digit_char d = CHR ''.''"
  then have "(of_char (digit_char d) :: nat) = of_char CHR ''.''" by simp
  with d show False by (simp add: digit_char_def)
qed

lemma digits_of_nat_no_dot: "CHR ''.'' \<notin> set (digits_of_nat n)"
proof (induction n rule: digits_of_nat.induct)
  case (1 n)
  show ?case
  proof (cases "n < 10")
    case True
    then show ?thesis using digit_char_not_dot [of n]
      by (auto simp add: digits_of_nat.simps [of n])
  next
    case False
    with 1 have "CHR ''.'' \<notin> set (digits_of_nat (n div 10))" by simp
    moreover have "digit_char (n mod 10) \<noteq> CHR ''.''" by (rule digit_char_not_dot) simp
    ultimately show ?thesis using False by (auto simp add: digits_of_nat.simps [of n])
  qed
qed

lemma format_d_no_dot: "CHR ''.'' \<notin> set (format_d i)"
  by (simp add: format_d_def digits_of_nat_no_dot)

lemma screen_name_inj:
  assumes "format_d i @ ''.'' @ f = format_d j @ ''.'' @ g"
  shows "f = g"
proof -
  from assms have e: "format_d i @ CHR ''.'' # f = format_d j @ CHR ''.'' # g" by simp
  have 1: "split_once CHR ''.'' (format_d i @ CHR ''.'' # f) = [format_d i, f]"
    by (rule split_once_at) (rule format_d_no_dot)
  have 2: "split_once CHR ''.'' (format_d j @ CHR ''.'' # g) = [format_d j, g]"
    by (rule split_once_at) (rule format_d_no_dot)
  have "[format_d i, f] = [format_d j, g]"
    unfolding 1 [symmetric] 2 [symmetric] e ..
  then show ?thesis by simp
qed

lemma loop_step:
  "get_active_screens_loop nodename (item # splits) acc =
     get_active_screens_loop nodename splits
       (case screen_entry nodename item of None \<Rightarrow> acc | Some (k, v) \<Rightarrow> acc(k \<mapsto> v))"
proof -
  obtain i frag where s: "split_session_name (Some item) = (PidInt i, frag)"
    using split_session_name_int by blast
  show ?thesis by (simp add: s screen_entry_def screen_name_of_def)
qed

lemma loop_result:
  "get_active_screens_loop nodename lines acc =
     Inr (acc ++ map_of (rev (List.map_filter (screen_entry nodename) lines)))"
proof (induction lines arbitrary: acc)
  case Nil
  show ?case by (simp add: map_filter_simps)
next
  case (Cons item splits)
  show ?case
  proof (cases "screen_entry nodename item")
    case None
    then show ?thesis unfolding loop_step Cons.IH by (simp add: map_filter_simps)
  next
    case (Some e)
    obtain k v where e: "e = (k, v)" by (cases e)
    have "acc(k \<mapsto> v) ++ m = acc ++ ([k \<mapsto> v] ++ m)" for m :: "string \<rightharpoonup> string"
      by (rule ext) (simp add: map_add_def split: option.splits)
    with Some e show ?thesis unfolding loop_step Cons.IH
      by (simp add: map_filter_simps)
  qed
qed

lemma screen_entry_iff:
  "(screen_entry nodename item = Some (k, v)) =
     (case split_session_name (Some item) of
        (PidInt pid, fragment) \<Rightarrow>
          pid \<noteq> - 1 \<and> k = format_d pid @ ''.'' @ fragment \<and>
          (if nodename \<noteq> []
           then prefix ''_'' fragment \<and> session_name2node_name fragment = nodename
                \<and> v = nodename
           else v = session_name2node_name fragment)
      | (PidStr s, fragment) \<Rightarrow> False)"
proof -
  obtain i frag where s: "split_session_name (Some item) = (PidInt i, frag)"
    using split_session_name_int by blast
  show ?thesis by (auto simp add: s screen_entry_def)
qed

lemma screen_entry_key:
  "screen_entry nodename item = Some (k, v) \<Longrightarrow>
     \<exists>i frag. k = format_d i @ ''.'' @ frag \<and>
       v = (if nodename \<noteq> [] then nodename else session_name2node_name frag)"
proof -
  obtain i frag where s: "split_session_name (Some item) = (PidInt i, frag)"
    using split_session_name_int by blast
  assume "screen_entry nodename item = Some (k, v)"
  then show ?thesis unfolding screen_entry_iff s by auto
qed

lemma screen_entry_functional:
  assumes "screen_entry nodename item1 = Some (k, v1)"
    and "screen_entry nodename item2 = Some (k, v2)"
  shows "v1 = v2"
proof -
  from screen_entry_key [OF assms(1)] obtain i f where
    1: "k = format_d i @ ''.'' @ f"
      "v1 = (if nodename \<noteq> [] then nodename else session_name2node_name f)" by blast
  from screen_entry_key [OF assms(2)] obtain j g where
    2: "k = format_d j @ ''.'' @ g"
      "v2 = (if nodename \<noteq> [] then nodename else session_name2node_name g)" by blast
  from 1(1) 2(1) have "f = g" using screen_name_inj by blast
  with 1(2) 2(2) show ?thesis by simp
qed

lemma entries_set:
  "((k, v) \<in> set (List.map_filter (screen_entry nodename) lines)) =
     (\<exists>item \<in> set lines. screen_entry nodename item = Some (k, v))"
  by (induction lines) (auto simp add: map_filter_simps split: option.splits)

lemma entries_lookup:
  "(map_of (rev (List.map_filter (screen_entry nodename) lines)) k = Some v) =
     (\<exists>item \<in> set lines. screen_entry nodename item = Some (k, v))"
proof
  assume "map_of (rev (List.map_filter (screen_entry nodename) lines)) k = Some v"
  then have "(k, v) \<in> set (rev (List.map_filter (screen_entry nodename) lines))"
    by (rule map_of_SomeD)
  then show "\<exists>item \<in> set lines. screen_entry nodename item = Some (k, v)"
    by (simp add: entries_set)
next
  assume a: "\<exists>item \<in> set lines. screen_entry nodename item = Some (k, v)"
  then have in1: "(k, v) \<in> set (rev (List.map_filter (screen_entry nodename) lines))"
    by (simp add: entries_set)
  from weak_map_of_SomeI [OF in1] obtain v' where
    v': "map_of (rev (List.map_filter (screen_entry nodename) lines)) k = Some v'"
    by blast
  then have "(k, v') \<in> set (rev (List.map_filter (screen_entry nodename) lines))"
    by (rule map_of_SomeD)
  then obtain item' where "screen_entry nodename item' = Some (k, v')"
    by (auto simp add: entries_set)
  moreover from a obtain item where "screen_entry nodename item = Some (k, v)" by blast
  ultimately have "v' = v" using screen_entry_functional by blast
  with v' show "map_of (rev (List.map_filter (screen_entry nodename) lines)) k = Some v"
    by simp
qed

lemma loop_listed:
  "\<exists>m. get_active_screens_loop nodename lines Map.empty = Inr m \<and>
        (\<forall>k v. (m k = Some v) = spec_listed nodename lines k v)"
  unfolding loop_result by (simp add: entries_lookup screen_entry_iff spec_listed_def)

lemma splitlines_empty: "splitlines [] = []"
  by code_simp

text \<open>
  C3: \<open>get_active_screens\<close> never raises, on the lines of any output. With a non-empty
  node name the result holds exactly the sessions, of lines with a pid other than \<open>-1\<close>,
  whose fragment starts with \<open>_\<close> and decodes to the node name; with the empty node name
  it holds every session of a line with such a pid. Each is stored under the key
  \<open>"<pid>.<fragment>"\<close>, mapped to the node name or to the decoded fragment.
\<close>

theorem get_active_screens_listed:
  "(\<exists>m. get_active_screens_loop nodename lines Map.empty = Inr m \<and>
        (\<forall>k v. (m k = Some v) = spec_listed nodename lines k v)) \<and>
   (\<exists>m. get_active_screens nodename output = Inr m \<and>
        (\<forall>k v. (m k = Some v) = spec_listed nodename (splitlines output) k v))"
proof (cases "output = []")
  case True
  then show ?thesis using loop_listed [of nodename lines]
    by (simp add: get_active_screens_def splitlines_empty spec_listed_def)
next
  case False
  then show ?thesis using loop_listed [of nodename lines] loop_listed [of nodename "splitlines output"]
    by (simp add: get_active_screens_def)
qed


lemma digit_chars:
  "digit_char 0 = CHR ''0''" "digit_char 1 = CHR ''1''" "digit_char 2 = CHR ''2''"
  "digit_char 3 = CHR ''3''" "digit_char 4 = CHR ''4''" "digit_char 5 = CHR ''5''"
  "digit_char 6 = CHR ''6''" "digit_char 7 = CHR ''7''" "digit_char 8 = CHR ''8''"
  "digit_char 9 = CHR ''9''" "digit_char (Suc 0) = CHR ''1''"
  using char_of_char [of "CHR ''0''", where ?'a = nat] char_of_char [of "CHR ''1''", where ?'a = nat]
    char_of_char [of "CHR ''2''", where ?'a = nat] char_of_char [of "CHR ''3''", where ?'a = nat]
    char_of_char [of "CHR ''4''", where ?'a = nat] char_of_char [of "CHR ''5''", where ?'a = nat]
    char_of_char [of "CHR ''6''", where ?'a = nat] char_of_char [of "CHR ''7''", where ?'a = nat]
    char_of_char [of "CHR ''8''", where ?'a = nat] char_of_char [of "CHR ''9''", where ?'a = nat]
  by (simp_all add: digit_char_def)

theorem get_active_screens_listed_witness:
  "(\<exists>m. get_active_screens ''/a/b''
          ([CHR 0x09] @ ''12345._a_b'' @ [CHR 0x09] @ ''(Detached)'' @ [CHR 0x0A]
           @ [CHR 0x09] @ ''777._x'' @ [CHR 0x0A]) = Inr m \<and>
        m ''12345._a_b'' = Some ''/a/b'' \<and> m ''777._x'' = None) \<and>
   (\<exists>m. get_active_screens []
          ([CHR 0x09] @ ''12345._a_b'' @ [CHR 0x09] @ ''(Detached)'' @ [CHR 0x0A]
           @ [CHR 0x09] @ ''777._x'' @ [CHR 0x0A]) = Inr m \<and>
        m ''12345._a_b'' = Some ''/a/b'' \<and> m ''777._x'' = Some ''/x'')"
proof -
  let ?out = "[CHR 0x09] @ ''12345._a_b'' @ [CHR 0x09] @ ''(Detached)'' @ [CHR 0x0A]
           @ [CHR 0x09] @ ''777._x'' @ [CHR 0x0A]"
  let ?l1 = "[CHR 0x09] @ ''12345._a_b'' @ [CHR 0x09] @ ''(Detached)''"
  let ?l2 = "[CHR 0x09] @ ''777._x''"
  have l: "splitlines ?out = [?l1, ?l2]" by (simp add: splitlines_def)
  have s1: "split_session_name (Some ?l1) = (PidInt 12345, ''_a_b'')"
    using split_session_name_dot [of "CHR 0x09 # ''12345''" "''_a_b'' @ [CHR 0x09] @ ''(Detached)''"]
    by (simp add: int_of_str_def strip_def is_space_def nat_of_digits_def is_digit_def
        digit_val_def)
  have s2: "split_session_name (Some ?l2) = (PidInt 777, ''_x'')"
    using split_session_name_dot [of "CHR 0x09 # ''777''" "''_x''"]
    by (simp add: int_of_str_def strip_def is_space_def nat_of_digits_def is_digit_def
        digit_val_def)
  have f1: "format_d 12345 = ''12345''"
    by (simp add: format_d_def digits_of_nat.simps digit_chars)
  have f2: "format_d 777 = ''777''"
    by (simp add: format_d_def digits_of_nat.simps digit_chars)
  have d1: "session_name2node_name ''_a_b'' = ''/a/b''"
    by (simp add: session_name2node_name_def SLASH_SEP_def)
  have d2: "session_name2node_name ''_x'' = ''/x''"
    by (simp add: session_name2node_name_def SLASH_SEP_def)
  have a1: "spec_listed ''/a/b'' (splitlines ?out) ''12345._a_b'' ''/a/b''"
    unfolding l spec_listed_def using s1 s2 by (simp add: f1 f2 d1 d2)
  have a2: "\<not> spec_listed ''/a/b'' (splitlines ?out) ''777._x'' v" for v
    unfolding l spec_listed_def using s1 s2 by (simp add: f1 f2 d1 d2)
  have b1: "spec_listed [] (splitlines ?out) ''12345._a_b'' ''/a/b''"
    unfolding l spec_listed_def using s1 s2 by (simp add: f1 f2 d1 d2)
  have b2: "spec_listed [] (splitlines ?out) ''777._x'' ''/x''"
    unfolding l spec_listed_def using s1 s2 by (simp add: f1 f2 d1 d2)
  from get_active_screens_listed [of "''/a/b''" "[]" ?out]
  have "\<exists>m. get_active_screens ''/a/b'' ?out = Inr m \<and>
        (\<forall>k v. (m k = Some v) = spec_listed ''/a/b'' (splitlines ?out) k v)"
    by (rule conjunct2)
  then obtain m where m1: "get_active_screens ''/a/b'' ?out = Inr m"
    and m2: "\<forall>k v. (m k = Some v) = spec_listed ''/a/b'' (splitlines ?out) k v"
    by blast
  from get_active_screens_listed [of "[]" "[]" ?out]
  have "\<exists>m. get_active_screens [] ?out = Inr m \<and>
        (\<forall>k v. (m k = Some v) = spec_listed [] (splitlines ?out) k v)"
    by (rule conjunct2)
  then obtain n where n1: "get_active_screens [] ?out = Inr n"
    and n2: "\<forall>k v. (n k = Some v) = spec_listed [] (splitlines ?out) k v"
    by blast
  have m3: "m ''12345._a_b'' = Some ''/a/b''" unfolding m2 [rule_format] by (rule a1)
  have m4: "m ''777._x'' = None"
  proof (cases "m ''777._x''")
    case None
    then show ?thesis .
  next
    case (Some v)
    then have "spec_listed ''/a/b'' (splitlines ?out) ''777._x'' v"
      unfolding m2 [rule_format] .
    with a2 [of v] show ?thesis by (rule notE)
  qed
  have n3: "n ''12345._a_b'' = Some ''/a/b''" unfolding n2 [rule_format] by (rule b1)
  have n4: "n ''777._x'' = Some ''/x''" unfolding n2 [rule_format] by (rule b2)
  show ?thesis
    by (intro conjI exI [of _ m] exI [of _ n] m1 m3 m4 n1 n3 n4)
qed

subsection \<open>A pid that is the invalid marker\<close>

text \<open>
  C10: the line \<open>-1.x\<close> is split into the pid \<open>-1\<close> and the non-empty name \<open>x\<close>; the pid is
  the value that marks an invalid line, so \<open>get_active_screens\<close> leaves the session out,
  for every node name, while it lists the session of the line \<open>1.x\<close>.
\<close>

theorem minus_one_pid_skipped:
  "split_session_name (Some ''-1.x'') = (PidInt (- 1), ''x'') \<and>
   snd (split_session_name (Some ''-1.x'')) \<noteq> [] \<and>
   get_active_screens nodename ''-1.x'' = Inr Map.empty \<and>
   (\<exists>m. get_active_screens [] ''1.x'' = Inr m \<and> m ''1.x'' = Some ''x'')"
proof -
  have s: "split_session_name (Some ''-1.x'') = (PidInt (- 1), ''x'')" by code_simp
  have l: "splitlines ''-1.x'' = [''-1.x'']" by (simp add: splitlines_def)
  have s1: "split_session_name (Some ''1.x'') = (PidInt 1, ''x'')" by code_simp
  have l1: "splitlines ''1.x'' = [''1.x'']" by (simp add: splitlines_def)
  have f1: "format_d 1 = ''1''" by code_simp
  have d: "session_name2node_name ''x'' = ''x''"
    by (simp add: session_name2node_name_def SLASH_SEP_def)
  show ?thesis
    by (simp add: s l s1 l1 f1 d get_active_screens_def screen_name_of_def)
qed

subsection \<open>File names\<close>

text \<open>
  C6: for a node name \<open>n\<close> and no session, the log, configuration and pid file names are
  \<open>LOG_PATH\<close>, the session name of \<open>n\<close> and the suffix \<open>.log\<close>, \<open>.conf\<close> or \<open>.pid\<close>; a given
  session is used as it is, whatever the node; with neither, the name is \<open>unknown\<close>. The
  results are functions of the arguments and of \<open>LOG_PATH\<close> alone.
\<close>

theorem file_names:
  "get_logfile LOG_PATH None (Some n) = LOG_PATH @ create_session_name (Some n) @ ''.log'' \<and>
   get_cfgfile LOG_PATH None (Some n) = LOG_PATH @ create_session_name (Some n) @ ''.conf'' \<and>
   get_pidfile LOG_PATH None (Some n) = LOG_PATH @ create_session_name (Some n) @ ''.pid'' \<and>
   get_logfile LOG_PATH (Some s) node = LOG_PATH @ s @ ''.log'' \<and>
   get_cfgfile LOG_PATH (Some s) node = LOG_PATH @ s @ ''.conf'' \<and>
   get_pidfile LOG_PATH (Some s) node = LOG_PATH @ s @ ''.pid'' \<and>
   get_logfile LOG_PATH None None = LOG_PATH @ ''unknown.log'' \<and>
   get_cfgfile LOG_PATH None None = LOG_PATH @ ''unknown.conf'' \<and>
   get_pidfile LOG_PATH None None = LOG_PATH @ ''unknown.pid''"
  by (simp add: get_logfile_def get_cfgfile_def get_pidfile_def)

theorem file_names_witness:
  "get_logfile ''/tmp/'' None (Some ''/a/b'') = ''/tmp/_a_b.log'' \<and>
   get_logfile ''/tmp/'' (Some ''77._x'') (Some ''/a/b'') = ''/tmp/77._x.log''"
  using file_names [of "''/tmp/''" "''/a/b''" "''77._x''" "Some ''/a/b''"]
  by (simp add: create_session_name_def ns_join_def is_private_def is_global_def SLASH_SEP_def)

subsection \<open>The screen configuration file\<close>

lemma append_env_spec:
  "fst (append_env f key env) =
     f @ (if key \<in> dom env \<and> the (env key) \<noteq> []
          then ''setenv '' @ key @ '' '' @ the (env key) @ [CHR 0x0A] else [])"
  "snd (append_env f key env) = (key \<in> dom env \<and> the (env key) \<noteq> [])"
  by (auto simp add: append_env_def split: option.splits)

lemma get_cmd_loop_spec:
  "get_cmd_loop env environ ks f = f @ concat (map (spec_setenv_line env environ) ks)"
proof (induction ks arbitrary: f)
  case Nil
  show ?case by simp
next
  case (Cons k ks)
  obtain f1 w where a: "append_env f k env = (f1, w)" by (cases "append_env f k env")
  from a have f1: "f1 = fst (append_env f k env)" and w: "w = snd (append_env f k env)"
    by simp_all
  show ?case
    by (simp add: a Cons.IH) (simp add: f1 w append_env_spec spec_setenv_line_def)
qed

text \<open>
  C7: after its three fixed lines the configuration file holds, for every name of
  \<open>keys\<close> and of the built-in list in turn, the setenv line of the specification: taken
  from \<open>env\<close> when the name has a non-empty value there, else from \<open>os.environ\<close> when it
  has a non-empty value there, else nothing.
\<close>

theorem get_cmd_setenv_lines:
  "fst (get_cmd LOG_PATH environ node env keys) =
     ''logfile '' @ get_logfile LOG_PATH None node @ [CHR 0x0A]
     @ ''logfile flush 0'' @ [CHR 0x0A]
     @ ''defscrollback 10000'' @ [CHR 0x0A]
     @ concat (map (spec_setenv_line env environ) (keys @ builtin_keys))"
  by (simp add: get_cmd_def Let_def get_cmd_loop_spec)

theorem get_cmd_setenv_lines_witness:
  "fst (get_cmd ''/tmp/'' [''ROS_HOSTNAME'' \<mapsto> ''host'', ''RESPAWN_MAX'' \<mapsto> []] (Some ''/a/b'')
          [''ROS_NAMESPACE'' \<mapsto> ''/ns'', ''ROS_HOSTNAME'' \<mapsto> []] [])
   = ''logfile /tmp/_a_b.log'' @ [CHR 0x0A]
     @ ''logfile flush 0'' @ [CHR 0x0A]
     @ ''defscrollback 10000'' @ [CHR 0x0A]
     @ ''setenv ROS_HOSTNAME host'' @ [CHR 0x0A]
     @ ''setenv ROS_NAMESPACE /ns'' @ [CHR 0x0A]"
  using get_cmd_setenv_lines [of "''/tmp/''"
      "[''ROS_HOSTNAME'' \<mapsto> ''host'', ''RESPAWN_MAX'' \<mapsto> []]" "Some ''/a/b''"
      "[''ROS_NAMESPACE'' \<mapsto> ''/ns'', ''ROS_HOSTNAME'' \<mapsto> []]" "[]"]
  by (simp add: builtin_keys_def spec_setenv_line_def get_logfile_def
      create_session_name_def ns_join_def is_private_def is_global_def SLASH_SEP_def)

subsection \<open>Removing the files\<close>

lemma guarded_remove:
  "(if isfile fs p then os_remove p fs else Inr fs) = Inr (remove_if_file p fs)"
  by (simp add: isfile_def os_remove_def remove_if_file_def)

lemma delete_log_Inr:
  "delete_log LOG_PATH nodename fs =
     Inr (remove_if_file (get_ros_logfile LOG_PATH nodename)
           (remove_if_file (get_pidfile LOG_PATH None nodename)
             (remove_if_file (get_cfgfile LOG_PATH None nodename)
               (remove_if_file (get_logfile LOG_PATH None nodename) fs))))"
  by (simp add: delete_log_def Let_def guarded_remove bind_err_def)

lemma remove_if_file_apply:
  "remove_if_file p fs q = (if q = p \<and> fs p = Some RegularFile then None else fs q)"
  by (simp add: remove_if_file_def)

lemma four_removes:
  "remove_if_file d (remove_if_file c (remove_if_file b (remove_if_file a fs))) p =
     (if p \<in> {a, b, c, d} \<and> fs p = Some RegularFile then None else fs p)"
  by (auto simp add: remove_if_file_apply)

lemma four_removes_again:
  "remove_if_file d (remove_if_file c (remove_if_file b (remove_if_file a
     (remove_if_file d (remove_if_file c (remove_if_file b (remove_if_file a fs))))))) =
   remove_if_file d (remove_if_file c (remove_if_file b (remove_if_file a fs)))"
  by (rule ext) (simp add: four_removes)

text \<open>
  C9: \<open>delete_log\<close> never raises: it returns a file system in which exactly those of the
  four derived paths that were regular files are gone, everything else as before; and
  called again on that file system it returns it unchanged, again without an error.
\<close>

theorem delete_log_twice:
  "\<exists>fs'. delete_log LOG_PATH nodename fs = Inr fs' \<and>
      (\<forall>p. fs' p =
         (if p \<in> {get_logfile LOG_PATH None nodename, get_cfgfile LOG_PATH None nodename,
                   get_pidfile LOG_PATH None nodename, get_ros_logfile LOG_PATH nodename}
             \<and> fs p = Some RegularFile
          then None else fs p)) \<and>
      delete_log LOG_PATH nodename fs' = Inr fs'"
  unfolding delete_log_Inr by (simp add: four_removes four_removes_again)

theorem delete_log_twice_witness:
  "\<exists>fs'. delete_log ''/tmp/'' (Some ''/a'')
            [''/tmp/_a.log'' \<mapsto> RegularFile, ''/tmp/a.log'' \<mapsto> RegularFile,
             ''/tmp/_a.conf'' \<mapsto> Directory, ''/tmp/b.log'' \<mapsto> RegularFile] = Inr fs' \<and>
      fs' ''/tmp/_a.log'' = None \<and> fs' ''/tmp/a.log'' = None \<and>
      fs' ''/tmp/_a.conf'' = Some Directory \<and> fs' ''/tmp/b.log'' = Some RegularFile \<and>
      delete_log ''/tmp/'' (Some ''/a'') fs' = Inr fs'"
proof -
  have n: "create_session_name (Some ''/a'') = ''_a''"
    by (simp add: create_session_name_def ns_join_def is_private_def is_global_def SLASH_SEP_def)
  have r: "get_ros_logfile ''/tmp/'' (Some ''/a'') = ''/tmp/a.log''"
    by (simp add: get_ros_logfile_def strip_chars_def)
  from delete_log_twice [of "''/tmp/''" "Some ''/a''"
      "[''/tmp/_a.log'' \<mapsto> RegularFile, ''/tmp/a.log'' \<mapsto> RegularFile,
        ''/tmp/_a.conf'' \<mapsto> Directory, ''/tmp/b.log'' \<mapsto> RegularFile]"]
  obtain fs' where
    "delete_log ''/tmp/'' (Some ''/a'')
            [''/tmp/_a.log'' \<mapsto> RegularFile, ''/tmp/a.log'' \<mapsto> RegularFile,
             ''/tmp/_a.conf'' \<mapsto> Directory, ''/tmp/b.log'' \<mapsto> RegularFile] = Inr fs'"
    and a: "\<And>p. fs' p =
         (if p \<in> {get_logfile ''/tmp/'' None (Some ''/a''), get_cfgfile ''/tmp/'' None (Some ''/a''),
                   get_pidfile ''/tmp/'' None (Some ''/a''), get_ros_logfile ''/tmp/'' (Some ''/a'')}
             \<and> [''/tmp/_a.log'' \<mapsto> RegularFile, ''/tmp/a.log'' \<mapsto> RegularFile,
             ''/tmp/_a.conf'' \<mapsto> Directory, ''/tmp/b.log'' \<mapsto> RegularFile] p = Some RegularFile
          then None else [''/tmp/_a.log'' \<mapsto> RegularFile, ''/tmp/a.log'' \<mapsto> RegularFile,
             ''/tmp/_a.conf'' \<mapsto> Directory, ''/tmp/b.log'' \<mapsto> RegularFile] p)"
    and "delete_log ''/tmp/'' (Some ''/a'') fs' = Inr fs'"
    by blast
  moreover have "fs' ''/tmp/_a.log'' = None" "fs' ''/tmp/a.log'' = None"
    "fs' ''/tmp/_a.conf'' = Some Directory" "fs' ''/tmp/b.log'' = Some RegularFile"
    by (simp_all add: a n r get_logfile_def get_cfgfile_def get_pidfile_def)
  ultimately show ?thesis by blast
qed

end
